theory Spec2Isabelle
  imports Complex_Main "HOL-Library.Word"
begin

section \<open>Runtime panics\<close>

text \<open>
  The Go runtime panics the code can raise: a slice expression out of range and a
  negative capacity handed to \<open>make\<close>. A function that can panic returns
  \<open>go_panic + 'a\<close>, with \<open>Inl\<close> for the panic.
\<close>

datatype go_panic = SliceBoundsOutOfRange | MakeSliceCapOutOfRange

section \<open>Go library functions the code calls\<close>

text \<open>
  The standard library is not part of the repository. The functions below follow its
  documented behaviour; a Go \<open>string\<close> or \<open>[]byte\<close> is a \<open>string\<close> here (a list of
  8-bit characters), a byte value is read with \<open>of_char\<close> and written with \<open>char_of\<close>,
  and a \<open>rune\<close> is the natural number of its code point (every rune the decoder
  produces lies between 0 and \<open>0x10FFFF\<close>, so the sign and width of \<open>int32\<close> do not
  matter).
\<close>

subsection \<open>UTF-8: the conversions \<open>[]rune(s)\<close> and \<open>string(runes)\<close>\<close>

text \<open>
  \<open>utf8.DecodeRune\<close>: the rune at the head of a byte sequence and the number of bytes
  it takes. The lead byte fixes the size and the range the second byte must lie in
  (the table \<open>first\<close> and the \<open>acceptRanges\<close> of the package); the masks \<open>p0 & 0x1F\<close>,
  \<open>p0 & 0x0F\<close>, \<open>p0 & 0x07\<close> and \<open>b & 0x3F\<close> are written as remainders and the shifts as
  products. An ill-formed or truncated sequence decodes to \<open>RuneError\<close> of size 1.
\<close>

definition RuneError :: nat where
  "RuneError = 0xFFFD"

definition rune_size :: "nat \<Rightarrow> nat" where
  "rune_size p0 = (if p0 < 0xE0 then 2 else if p0 < 0xF0 then 3 else 4)"

definition accept_lo :: "nat \<Rightarrow> nat" where
  "accept_lo p0 = (if p0 = 0xE0 then 0xA0 else if p0 = 0xF0 then 0x90 else 0x80)"

definition accept_hi :: "nat \<Rightarrow> nat" where
  "accept_hi p0 = (if p0 = 0xED then 0x9F else if p0 = 0xF4 then 0x8F else 0xBF)"

definition continuation :: "nat \<Rightarrow> bool" where
  "continuation b = (0x80 \<le> b \<and> b \<le> 0xBF)"

fun DecodeRune :: "nat list \<Rightarrow> nat \<times> nat" where
  "DecodeRune [] = (RuneError, 0)"
| "DecodeRune (p0 # p) =
     (if p0 < 0x80 then (p0, 1)
      else if p0 < 0xC2 \<or> 0xF4 < p0 then (RuneError, 1)
      else if length (p0 # p) < rune_size p0 then (RuneError, 1)
      else
        let b1 = p ! 0
        in if b1 < accept_lo p0 \<or> accept_hi p0 < b1 then (RuneError, 1)
           else if rune_size p0 \<le> 2 then ((p0 mod 32) * 64 + b1 mod 64, 2)
           else
             let b2 = p ! 1
             in if \<not> continuation b2 then (RuneError, 1)
                else if rune_size p0 \<le> 3 then
                  ((p0 mod 16) * 4096 + (b1 mod 64) * 64 + b2 mod 64, 3)
                else
                  let b3 = p ! 2
                  in if \<not> continuation b3 then (RuneError, 1)
                     else ((p0 mod 8) * 262144 + (b1 mod 64) * 4096
                             + (b2 mod 64) * 64 + b3 mod 64, 4))"

text \<open>The runes of a byte sequence, as \<open>[]rune(s)\<close> and \<open>range s\<close> read them.\<close>

fun decode_runes :: "nat list \<Rightarrow> nat list" where
  "decode_runes [] = []"
| "decode_runes (b # bs) =
     (case DecodeRune (b # bs) of (r, sz) \<Rightarrow> r # decode_runes (drop (sz - 1) bs))"

text \<open>
  \<open>utf8.EncodeRune\<close>, which \<open>string(runes)\<close> applies to every rune: one to four bytes,
  and the encoding of \<open>RuneError\<close> for a surrogate or a value beyond \<open>0x10FFFF\<close>.
\<close>

definition EncodeRune :: "nat \<Rightarrow> nat list" where
  "EncodeRune r =
     (if r \<le> 0x7F then [r]
      else if r \<le> 0x7FF then [0xC0 + r div 64, 0x80 + r mod 64]
      else if r > 0x10FFFF \<or> (0xD800 \<le> r \<and> r \<le> 0xDFFF) then [0xEF, 0xBF, 0xBD]
      else if r \<le> 0xFFFF then
        [0xE0 + r div 4096, 0x80 + (r div 64) mod 64, 0x80 + r mod 64]
      else [0xF0 + r div 262144, 0x80 + (r div 4096) mod 64,
            0x80 + (r div 64) mod 64, 0x80 + r mod 64])"

definition runes_of_string :: "string \<Rightarrow> nat list" where
  "runes_of_string s = decode_runes (map of_char s)"

definition string_of_runes :: "nat list \<Rightarrow> string" where
  "string_of_runes rs = map char_of (concat (map EncodeRune rs))"

text \<open>
  A Unicode scalar value: a code point that is not a surrogate. A text is well formed
  when it is \<open>string_of_runes\<close> of scalar values, that is their UTF-8 encoding.
\<close>

definition scalar_value :: "nat \<Rightarrow> bool" where
  "scalar_value r = (r < 0xD800 \<or> (0xE000 \<le> r \<and> r \<le> 0x10FFFF))"

subsection \<open>\<open>strconv.FormatUint(n, 10)\<close>, \<open>strings.HasPrefix\<close> and \<open>strings.TrimPrefix\<close>\<close>

function FormatUint :: "nat \<Rightarrow> string" where
  "FormatUint n =
     (if n < 10 then [''0123456789'' ! n]
      else FormatUint (n div 10) @ [''0123456789'' ! (n mod 10)])"
  by pat_completeness auto
termination
  by (relation "measure (\<lambda>n. n)") auto

declare FormatUint.simps [simp del]

definition HasPrefix :: "string \<Rightarrow> string \<Rightarrow> bool" where
  "HasPrefix s pre = (length pre \<le> length s \<and> take (length pre) s = pre)"

definition TrimPrefix :: "string \<Rightarrow> string \<Rightarrow> string" where
  "TrimPrefix s pre = (if HasPrefix s pre then drop (length pre) s else s)"

section \<open>internal/ws/middleware.go\<close>

subsection \<open>RateLimiter\<close>

text \<open>
  A \<open>time.Time\<close> is modelled by its clock reading in nanoseconds and a
  \<open>time.Duration\<close> by its length in nanoseconds, both as unbounded integers.
  \<open>time.Now()\<close> is the argument \<open>now\<close> of \<open>AllowMessage\<close>; the mutex is not
  modelled, one call is one atomic step on the limiter. A duration is an \<open>int64\<close>:
  the one operation of the code that can overflow on it, the negation in
  \<open>-rl.windowDuration\<close>, is written with its wrap-around. A clock reading is not
  bounded: \<open>Time.Add\<close> gives up the monotonic reading when the sum leaves its range and
  goes on with the wall clock, so \<open>Add\<close> and \<open>After\<close> compute as exact integers do.
\<close>

type_synonym time = int
type_synonym duration = int

record RateLimiter =
  timestamps :: "time list"
  maxMessages :: int
  windowDuration :: duration


text \<open>
  The unary minus on \<open>int64\<close>: the least value, \<open>math.MinInt64\<close>, is its own negative;
  every other value has the negative it has as an integer.
\<close>

definition neg_int64 :: "int \<Rightarrow> int" where
  "neg_int64 d = (if d = - (2 ^ 63) then - (2 ^ 63) else - d)"

definition time_Add :: "time \<Rightarrow> duration \<Rightarrow> time" where
  "time_Add t d = t + d"

definition After :: "time \<Rightarrow> time \<Rightarrow> bool" where
  "After t u = (u < t)"

text \<open>The loop of lines 39-43: \<open>filtered\<close> grows by the timestamps after the cutoff.\<close>

fun purge_loop :: "time \<Rightarrow> time list \<Rightarrow> time list \<Rightarrow> time list" where
  "purge_loop cutoff [] filtered = filtered"
| "purge_loop cutoff (t # ts) filtered =
     purge_loop cutoff ts (if After t cutoff then filtered @ [t] else filtered)"

text \<open>Lines 34-44: the limiter after the purge step, before the admission check.\<close>

definition purge :: "time \<Rightarrow> RateLimiter \<Rightarrow> RateLimiter" where
  "purge now rl =
     (let cutoff = time_Add now (neg_int64 (windowDuration rl))
      in rl\<lparr>timestamps := purge_loop cutoff (timestamps rl) []\<rparr>)"

definition AllowMessage :: "time \<Rightarrow> RateLimiter \<Rightarrow> bool \<times> RateLimiter" where
  "AllowMessage now rl =
     (let rl1 = purge now rl
      in if int (length (timestamps rl1)) \<ge> maxMessages rl1 then (False, rl1)
         else (True, rl1\<lparr>timestamps := timestamps rl1 @ [now]\<rparr>))"



text \<open>
  The window of the specification, in its words: a timestamp lies in the closed window
  when it is between \<open>now - windowDuration\<close> and \<open>now\<close>, both ends included.
\<close>

definition within_closed_window :: "time \<Rightarrow> duration \<Rightarrow> time \<Rightarrow> bool" where
  "within_closed_window now w t = (now - w \<le> t \<and> t \<le> now)"

text \<open>The window without its lower end.\<close>

definition within_half_open_window :: "time \<Rightarrow> duration \<Rightarrow> time \<Rightarrow> bool" where
  "within_half_open_window now w t = (now - w < t \<and> t \<le> now)"



subsection \<open>CommandHistory\<close>

text \<open>
  The slice \<open>commands\<close> is modelled by the list of its elements; its capacity decides
  only when \<open>append\<close> reallocates, which no caller can observe since \<open>GetHistory\<close>
  returns a copy.
\<close>

record CommandHistory =
  commands :: "string list"
  maxSize :: int

text \<open>
  \<open>make([]string, 0, size)\<close> panics when \<open>size\<close> is negative (the argument is
  written \<open>sz\<close> here). It also panics when the capacity is too large to allocate;
  that limit depends on the platform and is not modelled, so the definition stands
  for the capacities that can be allocated.
\<close>

definition NewCommandHistory :: "int \<Rightarrow> go_panic + CommandHistory" where
  "NewCommandHistory sz =
     (if sz < 0 then Inl MakeSliceCapOutOfRange
      else Inr \<lparr>commands = [], maxSize = sz\<rparr>)"

text \<open>The slice expression \<open>s[1:]\<close>: a panic when \<open>len(s) < 1\<close>.\<close>

definition slice_from_1 :: "'a list \<Rightarrow> go_panic + 'a list" where
  "slice_from_1 s = (if length s < 1 then Inl SliceBoundsOutOfRange else Inr (drop 1 s))"

definition Add :: "string \<Rightarrow> CommandHistory \<Rightarrow> go_panic + CommandHistory" where
  "Add command ch =
     (if int (length (commands ch)) \<ge> maxSize ch then
        (case slice_from_1 (commands ch) of
           Inl p \<Rightarrow> Inl p
         | Inr rest \<Rightarrow> Inr (ch\<lparr>commands := rest @ [command]\<rparr>))
      else Inr (ch\<lparr>commands := commands ch @ [command]\<rparr>))"

definition GetHistory :: "CommandHistory \<Rightarrow> string list" where
  "GetHistory ch = commands ch"

text \<open>Successive calls of \<open>Add\<close>, in order; the first panic ends the run.\<close>

fun AddAll :: "string list \<Rightarrow> CommandHistory \<Rightarrow> go_panic + CommandHistory" where
  "AddAll [] ch = Inr ch"
| "AddAll (c # cs) ch = (case Add c ch of Inl p \<Rightarrow> Inl p | Inr ch1 \<Rightarrow> AddAll cs ch1)"

text \<open>
  The history after each of the calls: every intermediate state of a run of \<open>Add\<close>,
  or the panic that ended it.
\<close>

fun AddTrace :: "string list \<Rightarrow> CommandHistory \<Rightarrow> go_panic + CommandHistory list" where
  "AddTrace [] ch = Inr []"
| "AddTrace (c # cs) ch =
     (case Add c ch of
        Inl p \<Rightarrow> Inl p
      | Inr ch1 \<Rightarrow> (case AddTrace cs ch1 of Inl p \<Rightarrow> Inl p | Inr tr \<Rightarrow> Inr (ch1 # tr)))"

text \<open>The last \<open>n\<close> elements of a list, in their order.\<close>

definition last_n :: "nat \<Rightarrow> 'a list \<Rightarrow> 'a list" where
  "last_n n xs = drop (length xs - n) xs"

subsection \<open>ClientHub\<close>

text \<open>
  A \<open>*websocket.Conn\<close> is modelled by its identity, a number. The three channels of the
  hub carry the requests \<open>register\<close>, \<open>unregister\<close> and \<open>broadcast\<close>; \<open>Run\<close> takes them
  one at a time, so a run of the hub is the list of the requests in the order it
  received them. The locks are not modelled: one request is one step.
\<close>

type_synonym conn = nat

record BroadcastMessage =
  Payload :: string
  Sender :: conn

datatype hub_request = register conn | unregister conn | broadcast BroadcastMessage

text \<open>
  What the hub cannot decide itself: the order in which \<open>range h.clients\<close> visits the
  keys of the map (Go leaves it unspecified), and for every peer the error its
  \<open>WriteMessage\<close> returns (\<open>None\<close> when the write succeeds).
\<close>

record hub_env =
  range_order :: "(conn \<rightharpoonup> bool) \<Rightarrow> conn list"
  peer_write_error :: "conn \<Rightarrow> string option"

text \<open>
  The hub with what it does to the world: \<open>write_calls\<close> lists every call of
  \<open>client.WriteMessage\<close> in order, \<open>delivered\<close> gives the payloads each peer received
  and \<open>hub_log\<close> the lines written by \<open>log.Printf\<close>.
\<close>

record ClientHub =
  clients :: "conn \<rightharpoonup> bool"
  write_calls :: "(conn \<times> string) list"
  delivered :: "conn \<Rightarrow> string list"
  hub_log :: "string list"

definition WriteMessage :: "hub_env \<Rightarrow> conn \<Rightarrow> string \<Rightarrow> ClientHub \<Rightarrow> string option \<times> ClientHub" where
  "WriteMessage env client payload h =
     (let h1 = h\<lparr>write_calls := write_calls h @ [(client, payload)]\<rparr>
      in case peer_write_error env client of
           None \<Rightarrow> (None, h1\<lparr>delivered := (delivered h1)(client := delivered h1 client @ [payload])\<rparr>)
         | Some e \<Rightarrow> (Some e, h1))"

text \<open>Lines 154-165: the loop over the clients, given the order of the visit.\<close>

fun broadcast_loop :: "hub_env \<Rightarrow> BroadcastMessage \<Rightarrow> conn list \<Rightarrow> ClientHub \<Rightarrow> ClientHub" where
  "broadcast_loop env msg [] h = h"
| "broadcast_loop env msg (client # rest) h =
     (if client = Sender msg then broadcast_loop env msg rest h
      else
        (case WriteMessage env client (Payload msg) h of
           (None, h1) \<Rightarrow> broadcast_loop env msg rest h1
         | (Some e, h1) \<Rightarrow>
             broadcast_loop env msg rest
               (h1\<lparr>hub_log := hub_log h1 @ [''error broadcasting to client: '' @ e]\<rparr>)))"

text \<open>One iteration of the loop of \<open>Run\<close> (lines 137-167), and the loop over a list of requests.\<close>

definition Run_step :: "hub_env \<Rightarrow> hub_request \<Rightarrow> ClientHub \<Rightarrow> ClientHub" where
  "Run_step env req h =
     (case req of
        register c \<Rightarrow>
          (let h1 = h\<lparr>clients := (clients h)(c \<mapsto> True)\<rparr>
           in h1\<lparr>hub_log := hub_log h1
                 @ [''Client registered, total clients: '' @ FormatUint (card (dom (clients h1)))]\<rparr>)
      | unregister c \<Rightarrow>
          (if c \<in> dom (clients h) then
             (let h1 = h\<lparr>clients := (clients h)(c := None)\<rparr>
              in h1\<lparr>hub_log := hub_log h1
                    @ [''Client unregistered, total clients: ''
                         @ FormatUint (card (dom (clients h1)))]\<rparr>)
           else h)
      | broadcast msg \<Rightarrow> broadcast_loop env msg (range_order env (clients h)) h)"

fun Run :: "hub_env \<Rightarrow> hub_request list \<Rightarrow> ClientHub \<Rightarrow> ClientHub" where
  "Run env [] h = h"
| "Run env (req # reqs) h = Run env reqs (Run_step env req h)"

text \<open>The log line of a peer whose write fails.\<close>

definition error_line :: "hub_env \<Rightarrow> conn \<Rightarrow> string" where
  "error_line env c = ''error broadcasting to client: '' @ the (peer_write_error env c)"

section \<open>internal/ws/handler.go\<close>

subsection \<open>CommandRequest and CommandResponse\<close>

text \<open>
  A \<open>float64\<close> is a finite value, written as the rational it denotes (\<open>Finite 0\<close> is
  \<open>+0\<close>), the negative zero, an infinity or a NaN. Its arithmetic is not modelled:
  the four operations are parameters of the environment below, and every theorem
  holds for all of them.
\<close>

datatype float64 = Finite rat | NegZero | PosInf | NegInf | NaN

record CommandRequest =
  Command :: string
  A :: float64
  B :: float64

record CommandResponse =
  Result :: float64
  Command :: string
  Error :: string

text \<open>The comparison \<open>x == 0\<close>, true of both zeros, and \<open>math.IsInf(x, 0) || math.IsNaN(x)\<close>.\<close>

definition float_is_zero :: "float64 \<Rightarrow> bool" where
  "float_is_zero x = (x = Finite 0 \<or> x = NegZero)"

definition float_unsupported :: "float64 \<Rightarrow> bool" where
  "float_unsupported x = (x = PosInf \<or> x = NegInf \<or> x = NaN)"

text \<open>
  The environment of the handler: the library functions that are taken as parameters
  (\<open>strings.ToUpper\<close>; \<open>json.Unmarshal\<close> into a \<open>CommandRequest\<close>, with \<open>Inl\<close> of the
  error text when it fails; the four operations on \<open>float64\<close>; the JSON text of a
  finite number and of a string), and for the connection the error returned by its
  \<open>n\<close>-th write (\<open>None\<close> when the write succeeds).
\<close>

record go_env =
  ToUpper :: "string \<Rightarrow> string"
  Unmarshal :: "string \<Rightarrow> string + CommandRequest"
  fadd :: "float64 \<Rightarrow> float64 \<Rightarrow> float64"
  fsub :: "float64 \<Rightarrow> float64 \<Rightarrow> float64"
  fmul :: "float64 \<Rightarrow> float64 \<Rightarrow> float64"
  fdiv :: "float64 \<Rightarrow> float64 \<Rightarrow> float64"
  encode_float :: "float64 \<Rightarrow> string"
  encode_string :: "string \<Rightarrow> string"
  conn_write_error :: "nat \<Rightarrow> string option"

subsection \<open>processCommand\<close>

text \<open>
  Lines 69-99: the response to a request that was parsed. \<open>result\<close> and \<open>respErr\<close>
  start at their zero values, \<open>+0\<close> and the empty string.
\<close>

definition command_response :: "go_env \<Rightarrow> CommandRequest \<Rightarrow> CommandResponse" where
  "command_response env req =
     (let cmd = CommandRequest.Command req;
          (result, respErr) =
            (if cmd = ''add'' then (fadd env (A req) (B req), '''')
             else if cmd = ''subtract'' then (fsub env (A req) (B req), '''')
             else if cmd = ''multiply'' then (fmul env (A req) (B req), '''')
             else if cmd = ''divide'' then
               (if float_is_zero (B req) then (Finite 0, ''division by zero'')
                else (fdiv env (A req) (B req), ''''))
             else (Finite 0, ''unknown command: '' @ cmd));
          resp = \<lparr>Result = Finite 0, Command = cmd, Error = ''''\<rparr>
      in if respErr \<noteq> '''' then resp\<lparr>Error := respErr\<rparr> else resp\<lparr>Result := result\<rparr>)"

text \<open>
  \<open>json.Marshal\<close> of a \<open>CommandResponse\<close>: the fields in the order of the struct. The
  tag \<open>omitempty\<close> leaves \<open>result\<close> out when it is zero and \<open>error\<close> out when it is
  empty; a result that is infinite or not a number makes \<open>Marshal\<close> fail. (The zero
  test is \<open>v.Float() == 0\<close>; Go 1.21 alone keeps a negative zero. No theorem below
  depends on the negative zero.)
\<close>

datatype json_value = JNumber float64 | JString string

definition unsupported_value :: "float64 \<Rightarrow> string" where
  "unsupported_value f =
     ''json: unsupported value: ''
       @ (if f = PosInf then ''+Inf'' else if f = NegInf then ''-Inf'' else ''NaN'')"

definition Marshal_fields :: "CommandResponse \<Rightarrow> string + (string \<times> json_value) list" where
  "Marshal_fields resp =
     (let tail = [(''command'', JString (CommandResponse.Command resp))]
                   @ (if Error resp = '''' then [] else [(''error'', JString (Error resp))])
      in if float_is_zero (Result resp) then Inr tail
         else if float_unsupported (Result resp) then Inl (unsupported_value (Result resp))
         else Inr ((''result'', JNumber (Result resp)) # tail))"

definition dquote :: char where
  "dquote = CHR 0x22"

fun encode_value :: "go_env \<Rightarrow> json_value \<Rightarrow> string" where
  "encode_value env (JNumber f) = encode_float env f"
| "encode_value env (JString s) = encode_string env s"

fun encode_fields :: "go_env \<Rightarrow> (string \<times> json_value) list \<Rightarrow> string" where
  "encode_fields env [] = ''''"
| "encode_fields env [(k, v)] = dquote # k @ [dquote] @ '':'' @ encode_value env v"
| "encode_fields env ((k, v) # kvs) =
     dquote # k @ [dquote] @ '':'' @ encode_value env v @ '','' @ encode_fields env kvs"

definition encode_object :: "go_env \<Rightarrow> (string \<times> json_value) list \<Rightarrow> string" where
  "encode_object env kvs = ''{'' @ encode_fields env kvs @ ''}''"

definition Marshal :: "go_env \<Rightarrow> CommandResponse \<Rightarrow> string + string" where
  "Marshal env resp =
     (case Marshal_fields resp of Inl e \<Rightarrow> Inl e | Inr kvs \<Rightarrow> Inr (encode_object env kvs))"

text \<open>
  \<open>processCommand\<close> returns the bytes of the response (\<open>Inr\<close>) or the error of
  \<open>Marshal\<close> (\<open>Inl\<close>). When the payload does not parse, the error of the first \<open>Marshal\<close>
  is dropped; that \<open>Marshal\<close> cannot fail, its result being zero.
\<close>

definition processCommand :: "go_env \<Rightarrow> string \<Rightarrow> string + string" where
  "processCommand env payload =
     (case Unmarshal env payload of
        Inl err \<Rightarrow>
          (case Marshal env \<lparr>Result = Finite 0, Command = ''unknown'',
                              Error = ''invalid JSON: '' @ err\<rparr> of
             Inl e \<Rightarrow> Inr ''''
           | Inr respBytes \<Rightarrow> Inr respBytes)
      | Inr req \<Rightarrow> Marshal env (command_response env req))"

subsection \<open>HandleWebSocket: the read loop\<close>

text \<open>
  Lines 224-226: the loop that swaps \<open>runes[i]\<close> and \<open>runes[j]\<close> from both ends, and
  its call with \<open>i = 0\<close> and \<open>j = len(runes) - 1\<close>. Both indices stay within the slice,
  so no index expression of the loop can panic.
\<close>

function reverse_loop :: "int \<Rightarrow> int \<Rightarrow> nat list \<Rightarrow> nat list" where
  "reverse_loop i j runes =
     (if i < j then
        reverse_loop (i + 1) (j - 1) (runes[nat i := runes ! nat j, nat j := runes ! nat i])
      else runes)"
  by pat_completeness auto
termination
  by (relation "measure (\<lambda>(i, j, runes). nat (j - i))") auto

declare reverse_loop.simps [simp del]

definition reverse_runes :: "nat list \<Rightarrow> nat list" where
  "reverse_runes runes = reverse_loop 0 (int (length runes) - 1) runes"

text \<open>Lines 214-239: the body of the response to a text message.\<close>

definition responseBody :: "go_env \<Rightarrow> string \<Rightarrow> string" where
  "responseBody env payload =
     (let message = payload
      in if HasPrefix message ''UPPER:'' then ToUpper env (TrimPrefix message ''UPPER:'')
         else if HasPrefix message ''REVERSE:'' then
           string_of_runes (reverse_runes (runes_of_string (TrimPrefix message ''REVERSE:'')))
         else if length message > 0 \<and> HasPrefix message ''{'' then
           (case processCommand env payload of
              Inl err \<Rightarrow> ''{'' @ [dquote] @ ''error'' @ [dquote] @ '':'' @ [dquote] @ err
                           @ [dquote] @ ''}''
            | Inr resp \<Rightarrow> resp)
         else message)"

text \<open>
  The loop of lines 184-250 reads until a read fails. Its input is the list of the
  results of \<open>conn.ReadMessage\<close>; its state is the global message counter, the frames
  the handler has written to the connection and the number of writes it has made.
  Logging, the deadlines and the concurrent ping task are not modelled.
\<close>

datatype ws_frame = TextFrame string | CloseFrame nat string

datatype read_result = ReadError string | ReadMessage int string

definition TextMessage :: int where
  "TextMessage = 1"

definition BinaryMessage :: int where
  "BinaryMessage = 2"

definition CloseNormalClosure :: nat where
  "CloseNormalClosure = 1000"

record conn_state =
  messageCounter :: "64 word"
  sent :: "ws_frame list"
  write_attempts :: nat

text \<open>\<open>conn.WriteMessage\<close> and \<open>conn.WriteControl\<close>: the frame is sent unless the write fails.\<close>

definition write_frame :: "go_env \<Rightarrow> ws_frame \<Rightarrow> conn_state \<Rightarrow> string option \<times> conn_state" where
  "write_frame env frame st =
     (let n = write_attempts st; st1 = st\<lparr>write_attempts := n + 1\<rparr>
      in case conn_write_error env n of
           None \<Rightarrow> (None, st1\<lparr>sent := sent st1 @ [frame]\<rparr>)
         | Some e \<Rightarrow> (Some e, st1))"

text \<open>
  Lines 208-249: what the loop does with a message that was read. The boolean is false
  when the loop ends (the \<open>break\<close> after a failed write).
\<close>

definition handle_message :: "go_env \<Rightarrow> int \<Rightarrow> string \<Rightarrow> conn_state \<Rightarrow> conn_state \<times> bool" where
  "handle_message env msgType payload st =
     (if msgType = TextMessage then
        let id = messageCounter st + 1;
            st1 = st\<lparr>messageCounter := id\<rparr>;
            formatted = ''#'' @ FormatUint (unat id) @ '' '' @ responseBody env payload;
            (err, st2) = write_frame env (TextFrame formatted) st1
        in (st2, err = None)
      else (st, True))"

text \<open>
  The loop: a read error ends it after one attempt to send a close frame, whose error
  is ignored; the end of the list is a read that has not returned yet.
\<close>

fun read_loop :: "go_env \<Rightarrow> read_result list \<Rightarrow> conn_state \<Rightarrow> conn_state" where
  "read_loop env [] st = st"
| "read_loop env (ReadError e # rest) st =
     snd (write_frame env (CloseFrame CloseNormalClosure ''idle timeout'') st)"
| "read_loop env (ReadMessage msgType payload # rest) st =
     (case handle_message env msgType payload st of
        (st1, True) \<Rightarrow> read_loop env rest st1
      | (st1, False) \<Rightarrow> st1)"

section \<open>Environments for evaluation\<close>

text \<open>
  Concrete values of the parameters, to evaluate the model on examples. \<open>exact_op\<close>
  computes on finite values without rounding: it agrees with \<open>float64\<close> arithmetic
  whenever the operands and the exact result are representable, as for the small
  integers of the examples. \<open>sample_env\<close> parses one request, upper-cases nothing,
  quotes strings without escapes, prints every number as 0 (no example prints one) and
  never fails a write; \<open>sample_hub_env\<close> visits the
  clients in the order 3, 1, 2 and fails every write to client 1.
\<close>

definition exact_op :: "(rat \<Rightarrow> rat \<Rightarrow> rat) \<Rightarrow> float64 \<Rightarrow> float64 \<Rightarrow> float64" where
  "exact_op f x y = (case (x, y) of (Finite a, Finite b) \<Rightarrow> Finite (f a b) | _ \<Rightarrow> NaN)"

definition sample_request :: string where
  \<open>sample_request = ''{"command":"divide","a":1,"b":0}''\<close>

definition sample_env :: go_env where
  "sample_env =
     \<lparr>ToUpper = (\<lambda>s. s),
      Unmarshal = (\<lambda>s. if s = sample_request
                         then Inr \<lparr>CommandRequest.Command = ''divide'', A = Finite 1, B = Finite 0\<rparr>
                         else Inl ''unexpected end of JSON input''),
      fadd = exact_op (+), fsub = exact_op (-), fmul = exact_op (*), fdiv = exact_op (/),
      encode_float = (\<lambda>f. ''0''),
      encode_string = (\<lambda>s. dquote # s @ [dquote]),
      conn_write_error = (\<lambda>n. None)\<rparr>"

definition sample_hub_env :: hub_env where
  "sample_hub_env =
     \<lparr>range_order = (\<lambda>m. filter (\<lambda>c. c \<in> dom m) [3, 1, 2]),
      peer_write_error = (\<lambda>c. if c = 1 then Some ''broken pipe'' else None)\<rparr>"

definition sample_hub :: ClientHub where
  "sample_hub =
     \<lparr>clients = [1 \<mapsto> True, 2 \<mapsto> True, 3 \<mapsto> True], write_calls = [],
      delivered = (\<lambda>c. []), hub_log = []\<rparr>"

section \<open>Properties of the library functions\<close>

subsection \<open>Decoding what was encoded\<close>

lemma DecodeRune1: "p0 < 0x80 \<Longrightarrow> DecodeRune (p0 # rest) = (p0, 1)"
  by simp

lemma DecodeRune2:
  assumes "0xC2 \<le> p0" "p0 < 0xE0" "continuation b1"
  shows "DecodeRune (p0 # b1 # rest) = ((p0 mod 32) * 64 + b1 mod 64, 2)"
proof -
  have "rune_size p0 = 2" "accept_lo p0 = 0x80" "accept_hi p0 = 0xBF"
    using assms by (simp_all add: rune_size_def accept_lo_def accept_hi_def)
  then show ?thesis using assms by (simp add: continuation_def)
qed

lemma DecodeRune3:
  assumes "0xE0 \<le> p0" "p0 < 0xF0" "accept_lo p0 \<le> b1" "b1 \<le> accept_hi p0"
    and "continuation b2"
  shows "DecodeRune (p0 # b1 # b2 # rest)
           = ((p0 mod 16) * 4096 + (b1 mod 64) * 64 + b2 mod 64, 3)"
proof -
  have "rune_size p0 = 3" using assms by (simp add: rune_size_def)
  then show ?thesis using assms by simp
qed

lemma DecodeRune4:
  assumes "0xF0 \<le> p0" "p0 \<le> 0xF4" "accept_lo p0 \<le> b1" "b1 \<le> accept_hi p0"
    and "continuation b2" "continuation b3"
  shows "DecodeRune (p0 # b1 # b2 # b3 # rest)
           = ((p0 mod 8) * 262144 + (b1 mod 64) * 4096 + (b2 mod 64) * 64 + b3 mod 64, 4)"
proof -
  have "rune_size p0 = 4" using assms by (simp add: rune_size_def)
  then show ?thesis using assms by simp
qed


lemma mod_offset: "x < m \<Longrightarrow> (k * m + x) mod m = (x::nat)"
  by simp

lemma lead2_mod: "a < 32 \<Longrightarrow> (0xC0 + a) mod 32 = (a::nat)"
  using mod_offset [of a 32 6] by simp

lemma lead3_mod: "a < 16 \<Longrightarrow> (0xE0 + a) mod 16 = (a::nat)"
  using mod_offset [of a 16 14] by simp

lemma lead4_mod: "a < 8 \<Longrightarrow> (0xF0 + a) mod 8 = (a::nat)"
  using mod_offset [of a 8 30] by simp

lemma cont_mod: "b < 64 \<Longrightarrow> (0x80 + b) mod 64 = (b::nat)"
  using mod_offset [of b 64 2] by simp

lemma cont_byte: "b < 64 \<Longrightarrow> continuation (0x80 + b)"
  by (simp add: continuation_def)

lemma split3: "(r::nat) = r div 4096 * 4096 + (r div 64) mod 64 * 64 + r mod 64"
proof -
  have "r div 4096 = r div 64 div 64"
    using div_mult2_eq [of r 64 64] by simp
  moreover have "r div 64 = r div 64 div 64 * 64 + r div 64 mod 64" by simp
  moreover have "r = r div 64 * 64 + r mod 64" by simp
  ultimately show ?thesis by linarith
qed

lemma split4:
  "(r::nat) = r div 262144 * 262144 + (r div 4096) mod 64 * 4096
                + (r div 64) mod 64 * 64 + r mod 64"
proof -
  have "r div 262144 = r div 4096 div 64"
    using div_mult2_eq [of r 4096 64] by simp
  moreover have "r div 4096 = r div 4096 div 64 * 64 + r div 4096 mod 64" by simp
  moreover have "r = r div 4096 * 4096 + (r div 64) mod 64 * 64 + r mod 64" by (rule split3)
  ultimately show ?thesis by linarith
qed

lemma div_bounds:
  "r < k * n \<Longrightarrow> r div n < (k::nat)"
  "0 < n \<Longrightarrow> k * n \<le> r \<Longrightarrow> k \<le> r div (n::nat)"
  by (simp_all add: less_mult_imp_div_less less_eq_div_iff_mult_less_eq)

lemma dec2:
  assumes "0x7F < r" "r \<le> 0x7FF"
  shows "DecodeRune ((0xC0 + r div 64) # (0x80 + r mod 64) # rest) = (r, 2)"
proof -
  define a where "a = r div 64"
  define b where "b = r mod 64"
  have r: "r = a * 64 + b" by (simp add: a_def b_def)
  have b: "b < 64" by (simp add: b_def)
  have a: "2 \<le> a" "a < 32"
    using assms div_bounds(1) [of r 32 64] div_bounds(2) [of 64 2 r] by (simp_all add: a_def)
  have "DecodeRune ((0xC0 + a) # (0x80 + b) # rest)
          = (((0xC0 + a) mod 32) * 64 + (0x80 + b) mod 64, 2)"
    using a by (intro DecodeRune2 cont_byte b) simp_all
  also have "\<dots> = (r, 2)" using a b by (simp only: lead2_mod cont_mod r)
  finally show ?thesis by (simp only: a_def b_def)
qed

lemma dec3:
  assumes "0x7FF < r" "r \<le> 0xFFFF" "\<not> (0xD800 \<le> r \<and> r \<le> 0xDFFF)"
  shows "DecodeRune ((0xE0 + r div 4096) # (0x80 + (r div 64) mod 64) # (0x80 + r mod 64) # rest)
           = (r, 3)"
proof -
  define a where "a = r div 4096"
  define b where "b = (r div 64) mod 64"
  define c where "c = r mod 64"
  have r: "r = a * 4096 + b * 64 + c" unfolding a_def b_def c_def by (rule split3)
  have b: "b < 64" by (simp add: b_def)
  have c: "c < 64" by (simp add: c_def)
  have a: "a < 16" using assms div_bounds(1) [of r 16 4096] by (simp add: a_def)
  have lo: "a = 0 \<Longrightarrow> 32 \<le> b" using assms(1) r c by linarith
  have hi: "a = 13 \<Longrightarrow> b < 32" using assms(3) r c b by linarith
  have alo: "accept_lo (0xE0 + a) \<le> 0x80 + b" using lo a by (auto simp: accept_lo_def)
  have ahi: "0x80 + b \<le> accept_hi (0xE0 + a)" using hi b a by (auto simp: accept_hi_def)
  have "DecodeRune ((0xE0 + a) # (0x80 + b) # (0x80 + c) # rest)
          = (((0xE0 + a) mod 16) * 4096 + ((0x80 + b) mod 64) * 64 + (0x80 + c) mod 64, 3)"
    using a by (intro DecodeRune3 alo ahi cont_byte c) simp_all
  also have "\<dots> = (r, 3)" using a b c by (simp only: lead3_mod cont_mod r)
  finally show ?thesis by (simp only: a_def b_def c_def)
qed

lemma dec4:
  assumes "0xFFFF < r" "r \<le> 0x10FFFF"
  shows "DecodeRune ((0xF0 + r div 262144) # (0x80 + (r div 4096) mod 64)
           # (0x80 + (r div 64) mod 64) # (0x80 + r mod 64) # rest) = (r, 4)"
proof -
  define a where "a = r div 262144"
  define b where "b = (r div 4096) mod 64"
  define c where "c = (r div 64) mod 64"
  define d where "d = r mod 64"
  have r: "r = a * 262144 + b * 4096 + c * 64 + d" unfolding a_def b_def c_def d_def by (rule split4)
  have b: "b < 64" by (simp add: b_def)
  have c: "c < 64" by (simp add: c_def)
  have d: "d < 64" by (simp add: d_def)
  have a: "a < 5" using assms div_bounds(1) [of r 5 262144] by (simp add: a_def)
  have a8: "a < 8" using a by simp
  have lo: "a = 0 \<Longrightarrow> 16 \<le> b" using assms(1) r c d by linarith
  have hi: "a = 4 \<Longrightarrow> b < 16" using assms(2) r c d b by linarith
  have alo: "accept_lo (0xF0 + a) \<le> 0x80 + b" using lo by (auto simp: accept_lo_def)
  have ahi: "0x80 + b \<le> accept_hi (0xF0 + a)" using hi b a by (auto simp: accept_hi_def)
  have "DecodeRune ((0xF0 + a) # (0x80 + b) # (0x80 + c) # (0x80 + d) # rest)
          = (((0xF0 + a) mod 8) * 262144 + ((0x80 + b) mod 64) * 4096
               + ((0x80 + c) mod 64) * 64 + (0x80 + d) mod 64, 4)"
    using a by (intro DecodeRune4 alo ahi cont_byte c d) simp_all
  also have "\<dots> = (r, 4)" using a8 b c d by (simp only: lead4_mod cont_mod r)
  finally show ?thesis by (simp only: a_def b_def c_def d_def)
qed

lemma DecodeRune_EncodeRune:
  assumes "scalar_value r"
  shows "DecodeRune (EncodeRune r @ rest) = (r, length (EncodeRune r))"
proof -
  consider "r \<le> 0x7F" | "0x7F < r" "r \<le> 0x7FF" | "0x7FF < r" "r \<le> 0xFFFF" | "0xFFFF < r"
    by linarith
  then show ?thesis
  proof cases
    case 1
    then show ?thesis by (simp add: EncodeRune_def)
  next
    case 2
    then show ?thesis using dec2 [of r rest] by (simp add: EncodeRune_def)
  next
    case 3
    with assms have ns: "\<not> (0xD800 \<le> r \<and> r \<le> 0xDFFF)" by (auto simp: scalar_value_def)
    from assms have "r < 0xD800 \<or> 0xE000 \<le> r" by (auto simp: scalar_value_def)
    then have e: "EncodeRune r = [0xE0 + r div 4096, 0x80 + (r div 64) mod 64, 0x80 + r mod 64]"
      using 3 by (elim disjE) (simp_all add: EncodeRune_def)
    show ?thesis using dec3 [OF 3 ns, of rest] by (simp only: e append.simps list.size) simp
  next
    case 4
    with assms have le: "r \<le> 0x10FFFF" by (auto simp: scalar_value_def)
    have e: "EncodeRune r = [0xF0 + r div 262144, 0x80 + (r div 4096) mod 64,
            0x80 + (r div 64) mod 64, 0x80 + r mod 64]"
      using 4 le by (simp add: EncodeRune_def)
    show ?thesis using dec4 [OF 4 le, of rest] by (simp only: e append.simps list.size) simp
  qed
qed

lemma length_EncodeRune: "1 \<le> length (EncodeRune r)"
  by (simp add: EncodeRune_def)

lemma decode_runes_EncodeRune:
  assumes "scalar_value r"
  shows "decode_runes (EncodeRune r @ rest) = r # decode_runes rest"
proof -
  obtain b bs where e: "EncodeRune r = b # bs"
    using length_EncodeRune [of r] by (cases "EncodeRune r") auto
  have "DecodeRune (b # bs @ rest) = (r, Suc (length bs))"
    using DecodeRune_EncodeRune [OF assms, of rest] e by simp
  then have "decode_runes (b # bs @ rest) = r # decode_runes (drop (length bs) (bs @ rest))"
    by (simp del: DecodeRune.simps)
  then show ?thesis using e by simp
qed

lemma decode_runes_encode:
  assumes "\<forall>r\<in>set rs. scalar_value r"
  shows "decode_runes (concat (map EncodeRune rs)) = rs"
  using assms by (induction rs) (simp_all add: decode_runes_EncodeRune)

lemma EncodeRune_bytes:
  assumes "b \<in> set (EncodeRune r)"
  shows "b < 256"
proof -
  have m: "r mod 64 < 64" "(r div 64) mod 64 < 64" "(r div 4096) mod 64 < 64" by simp_all
  have 2: "r \<le> 0x7FF \<Longrightarrow> r div 64 < 32" using div_bounds(1) [of r 32 64] by simp
  have 3: "r \<le> 0xFFFF \<Longrightarrow> r div 4096 < 16" using div_bounds(1) [of r 16 4096] by simp
  have 4: "r \<le> 0x10FFFF \<Longrightarrow> r div 262144 < 5" using div_bounds(1) [of r 5 262144] by simp
  consider "r \<le> 0x7F" | "0x7F < r" "r \<le> 0x7FF"
    | "0x7FF < r" "r > 0x10FFFF \<or> (0xD800 \<le> r \<and> r \<le> 0xDFFF)"
    | "0x7FF < r" "\<not> (r > 0x10FFFF \<or> (0xD800 \<le> r \<and> r \<le> 0xDFFF))" "r \<le> 0xFFFF"
    | "0xFFFF < r" "r \<le> 0x10FFFF"
    by linarith
  then show ?thesis
  proof cases
    case 1 with assms show ?thesis by (simp add: EncodeRune_def)
  next
    case 2 with assms m 2 show ?thesis by (auto simp: EncodeRune_def)
  next
    case 3 with assms show ?thesis by (auto simp: EncodeRune_def)
  next
    case 4 with assms m 3 show ?thesis by (auto simp: EncodeRune_def)
  next
    case 5 with assms m 4 show ?thesis by (auto simp: EncodeRune_def)
  qed
qed

subsection \<open>The reversal loop\<close>

lemma length_reverse_loop: "length (reverse_loop i j xs) = length xs"
proof (induction i j xs rule: reverse_loop.induct)
  case (1 i j runes)
  show ?case
  proof (cases "i < j")
    case True
    with 1 show ?thesis by (simp add: reverse_loop.simps [of i j runes])
  next
    case False
    then show ?thesis by (simp add: reverse_loop.simps [of i j runes])
  qed
qed

lemma nth_reverse_loop:
  assumes "0 \<le> i" "j < int (length xs)" "k < length xs"
  shows "reverse_loop i j xs ! k
           = (if i \<le> int k \<and> int k \<le> j then xs ! nat (i + j - int k) else xs ! k)"
  using assms
proof (induction i j xs rule: reverse_loop.induct)
  case (1 i j runes)
  show ?case
  proof (cases "i < j")
    case True
    let ?xs' = "runes[nat i := runes ! nat j, nat j := runes ! nat i]"
    have unf: "reverse_loop i j runes = reverse_loop (i + 1) (j - 1) ?xs'"
      using True by (simp add: reverse_loop.simps [of i j runes])
    have ih: "reverse_loop (i + 1) (j - 1) ?xs' ! k
           = (if i + 1 \<le> int k \<and> int k \<le> j - 1 then ?xs' ! nat (i + 1 + (j - 1) - int k)
              else ?xs' ! k)"
      using "1.IH" [OF True] "1.prems" by simp
    have ni: "nat i < length runes" "nat j < length runes" "nat i \<noteq> nat j"
      using True "1.prems" by auto
    show ?thesis
    proof (cases "i + 1 \<le> int k \<and> int k \<le> j - 1")
      case mid: True
      then have "nat (i + j - int k) \<noteq> nat i" "nat (i + j - int k) \<noteq> nat j"
        using "1.prems" by auto
      then have "?xs' ! nat (i + j - int k) = runes ! nat (i + j - int k)" by simp
      with mid ih unf show ?thesis by simp
    next
      case out: False
      consider "int k = i" | "int k = j" | "int k < i \<or> j < int k"
        using out by linarith
      then show ?thesis
      proof cases
        case 1
        then have "k = nat i" by simp
        then have "?xs' ! k = runes ! nat j" using ni by simp
        with out ih unf 1 True show ?thesis by simp
      next
        case 2
        then have "k = nat j" by simp
        then have "?xs' ! k = runes ! nat i" using ni by simp
        with out ih unf 2 True show ?thesis by simp
      next
        case 3
        then have "k \<noteq> nat i" "k \<noteq> nat j" using "1.prems" True by linarith+
        then have "?xs' ! k = runes ! k" by simp
        with out ih unf 3 show ?thesis by auto
      qed
    qed
  next
    case False
    then have unf: "reverse_loop i j runes = runes"
      by (simp add: reverse_loop.simps [of i j runes])
    show ?thesis
    proof (cases "i \<le> int k \<and> int k \<le> j")
      case True
      with False have "nat (i + j - int k) = k" by linarith
      with True unf show ?thesis by simp
    next
      case out: False
      then have "(if i \<le> int k \<and> int k \<le> j then runes ! nat (i + j - int k) else runes ! k)
                   = runes ! k" by (rule if_not_P)
      with unf show ?thesis by (simp only:)
    qed
  qed
qed

lemma reverse_runes_rev: "reverse_runes xs = rev xs"
proof (rule nth_equalityI)
  show "length (reverse_runes xs) = length (rev xs)"
    by (simp add: reverse_runes_def length_reverse_loop)
next
  fix k assume "k < length (reverse_runes xs)"
  then have k: "k < length xs" by (simp add: reverse_runes_def length_reverse_loop)
  have "reverse_loop 0 (int (length xs) - 1) xs ! k = xs ! nat (0 + (int (length xs) - 1) - int k)"
    using nth_reverse_loop [of 0 "int (length xs) - 1" xs k] k by simp
  moreover have "nat (0 + (int (length xs) - 1) - int k) = length xs - Suc k" using k by auto
  ultimately show "reverse_runes xs ! k = rev xs ! k"
    using k by (simp add: reverse_runes_def rev_nth)
qed

section \<open>Properties of RateLimiter\<close>

lemma purge_loop_filter:
  "purge_loop cutoff ts filtered = filtered @ filter (\<lambda>t. cutoff < t) ts"
  by (induction ts arbitrary: filtered) (simp_all add: After_def)

lemma timestamps_purge_cutoff:
  "timestamps (purge now rl)
     = filter (\<lambda>t. now + neg_int64 (windowDuration rl) < t) (timestamps rl)"
  by (simp add: purge_def time_Add_def purge_loop_filter)

lemma neg_int64_eq: "d \<noteq> - (2 ^ 63) \<Longrightarrow> neg_int64 d = - d"
  by (simp add: neg_int64_def)

lemma timestamps_purge:
  assumes "windowDuration rl \<noteq> - (2 ^ 63)"
  shows "timestamps (purge now rl)
           = filter (\<lambda>t. now - windowDuration rl < t) (timestamps rl)"
  by (simp add: timestamps_purge_cutoff neg_int64_eq [OF assms])


lemma purge_fields:
  "maxMessages (purge now rl) = maxMessages rl"
  "windowDuration (purge now rl) = windowDuration rl"
  by (simp_all add: purge_def)












text \<open>
  Claim C4 at a timestamp exactly one window old. With the stored timestamp 0, the
  window 60 and the clock at 60, the timestamp lies in the closed window
  \<open>[now - windowDuration, now]\<close> and is not older than the window; the purge keeps a
  timestamp only when it is after the cutoff, and drops it.
\<close>

theorem purge_drops_timestamp_at_cutoff:
  "within_closed_window 60 60 0
   \<and> timestamps (purge 60 \<lparr>timestamps = [0], maxMessages = 10, windowDuration = 60\<rparr>) = []
   \<and> filter (within_closed_window 60 60) [0] = [0]
   \<and> timestamps (purge 60 \<lparr>timestamps = [0], maxMessages = 10, windowDuration = 60\<rparr>)
       \<noteq> filter (within_closed_window 60 60)
            (timestamps \<lparr>timestamps = [0], maxMessages = 10, windowDuration = 60\<rparr>)"
  by (simp add: purge_def time_Add_def After_def within_closed_window_def neg_int64_def)

text \<open>
  What the purge does keep. The stored timestamps after the purge are the previously
  stored ones strictly after the cutoff, in their order, and the cutoff is
  \<open>now - windowDuration\<close> for every window but \<open>math.MinInt64\<close>: then they are the ones in
  the half-open window \<open>(now - windowDuration, now]\<close> when no stored timestamp is later
  than \<open>now\<close>. The admission check reads the purged timestamps: the call is accepted
  when fewer than \<open>maxMessages\<close> remain, and the limiter then holds the purged
  timestamps, followed by \<open>now\<close> when the call was accepted.
\<close>

lemma purge_keeps_half_open_window:
  assumes "windowDuration rl \<noteq> - (2 ^ 63)"
  shows "timestamps (purge now rl)
           = filter (\<lambda>t. now - windowDuration rl < t) (timestamps rl)
   \<and> ((\<forall>t\<in>set (timestamps rl). t \<le> now) \<longrightarrow>
        timestamps (purge now rl)
          = filter (within_half_open_window now (windowDuration rl)) (timestamps rl))
   \<and> fst (AllowMessage now rl) = (int (length (timestamps (purge now rl))) < maxMessages rl)
   \<and> timestamps (snd (AllowMessage now rl))
       = timestamps (purge now rl) @ (if fst (AllowMessage now rl) then [now] else [])"
proof -
  have 1: "timestamps (purge now rl) = filter (\<lambda>t. now - windowDuration rl < t) (timestamps rl)"
    using assms by (rule timestamps_purge)
  have 2: "(\<forall>t\<in>set (timestamps rl). t \<le> now) \<longrightarrow>
        timestamps (purge now rl)
          = filter (within_half_open_window now (windowDuration rl)) (timestamps rl)"
  proof
    assume le: "\<forall>t\<in>set (timestamps rl). t \<le> now"
    have "filter (\<lambda>t. now - windowDuration rl < t) (timestamps rl)
            = filter (within_half_open_window now (windowDuration rl)) (timestamps rl)"
      using le by (intro filter_cong) (auto simp: within_half_open_window_def)
    with 1 show "timestamps (purge now rl)
          = filter (within_half_open_window now (windowDuration rl)) (timestamps rl)" by simp
  qed
  have 3: "fst (AllowMessage now rl) = (int (length (timestamps (purge now rl))) < maxMessages rl)"
    by (auto simp: AllowMessage_def Let_def purge_fields)
  have 4: "timestamps (snd (AllowMessage now rl))
       = timestamps (purge now rl) @ (if fst (AllowMessage now rl) then [now] else [])"
    by (simp add: AllowMessage_def Let_def)
  show ?thesis by (intro conjI 1 2 3 4)
qed

lemma purge_keeps_half_open_window_example:
  "timestamps (purge 60 \<lparr>timestamps = [0, 1, 60], maxMessages = 10, windowDuration = 60\<rparr>)
     = [1, 60]
   \<and> filter (within_half_open_window 60 60) [0, 1, 60] = [1, 60]
   \<and> fst (AllowMessage 60 \<lparr>timestamps = [0, 1, 60], maxMessages = 10, windowDuration = 60\<rparr>)
   \<and> timestamps (snd (AllowMessage 60
        \<lparr>timestamps = [0, 1, 60], maxMessages = 10, windowDuration = 60\<rparr>)) = [1, 60, 60]"
proof -
  let ?rl = "\<lparr>timestamps = [0, 1, 60], maxMessages = 10, windowDuration = 60\<rparr>"
  have w: "windowDuration ?rl \<noteq> - (2 ^ 63)" by simp
  have le: "\<forall>t\<in>set (timestamps ?rl). t \<le> 60" by simp
  have f: "filter (within_half_open_window 60 60) [0, 1, 60] = [1, 60]"
    by (simp add: within_half_open_window_def)
  from purge_keeps_half_open_window [OF w, of 60] le f show ?thesis by simp
qed

text \<open>
  With the window \<open>math.MinInt64\<close> the negation wraps, the cutoff lies \<open>2 ^ 63\<close>
  nanoseconds before \<open>now\<close>, and the purge keeps what an exact negation would drop.
\<close>

lemma purge_at_MinInt64:
  "windowDuration rl = - (2 ^ 63) \<Longrightarrow>
     timestamps (purge now rl) = filter (\<lambda>t. now - 2 ^ 63 < t) (timestamps rl)"
  "timestamps (purge 0 \<lparr>timestamps = [0], maxMessages = 10, windowDuration = - (2 ^ 63)\<rparr>)
     = [0]"
  by (simp_all add: timestamps_purge_cutoff neg_int64_def)

section \<open>Properties of CommandHistory\<close>

lemma Add_ok:
  assumes "1 \<le> maxSize ch"
  shows "Add c ch =
           Inr (ch\<lparr>commands :=
                 (if int (length (commands ch)) \<ge> maxSize ch then drop 1 (commands ch)
                  else commands ch) @ [c]\<rparr>)"
  using assms by (auto simp: Add_def slice_from_1_def)

lemma last_n_step:
  assumes "length xs \<le> n" "1 \<le> n"
  shows "last_n n ((if n \<le> length xs then drop 1 xs else xs) @ c # cs) = last_n n (xs @ c # cs)"
proof (cases "n \<le> length xs")
  case True
  with assms have len: "length xs = n" by simp
  with assms have ne: "xs \<noteq> []" by auto
  then obtain x xs' where xs: "xs = x # xs'" by (cases xs) auto
  with len have "length xs' = n - 1" by simp
  with xs len assms show ?thesis by (simp add: last_n_def)
next
  case False
  then show ?thesis by simp
qed

lemma AddAll_last_n:
  assumes "1 \<le> maxSize ch" "int (length (commands ch)) \<le> maxSize ch"
  shows "AddAll cs ch = Inr (ch\<lparr>commands := last_n (nat (maxSize ch)) (commands ch @ cs)\<rparr>)"
  using assms
proof (induction cs arbitrary: ch)
  case Nil
  then show ?case by (simp add: last_n_def)
next
  case (Cons c cs)
  let ?n = "nat (maxSize ch)"
  let ?ys = "(if int (length (commands ch)) \<ge> maxSize ch then drop 1 (commands ch)
              else commands ch) @ [c]"
  let ?ch1 = "ch\<lparr>commands := ?ys\<rparr>"
  have add: "Add c ch = Inr ?ch1" using Cons.prems(1) by (rule Add_ok)
  have m1: "1 \<le> maxSize ?ch1" using Cons.prems(1) by simp
  have l1: "int (length (commands ?ch1)) \<le> maxSize ?ch1" using Cons.prems by auto
  have "AddAll cs ?ch1 = Inr (?ch1\<lparr>commands := last_n (nat (maxSize ?ch1)) (commands ?ch1 @ cs)\<rparr>)"
    by (rule Cons.IH [OF m1 l1])
  moreover have "last_n ?n (?ys @ cs) = last_n ?n (commands ch @ c # cs)"
  proof -
    have a: "length (commands ch) \<le> ?n" "1 \<le> ?n" using Cons.prems by auto
    have b: "(int (length (commands ch)) \<ge> maxSize ch) = (?n \<le> length (commands ch))"
      using Cons.prems by auto
    show ?thesis using last_n_step [OF a, of c cs] by (simp add: b)
  qed
  ultimately show ?case using add by simp
qed

lemma Add_keeps_bound:
  assumes "1 \<le> maxSize ch" "int (length (commands ch)) \<le> maxSize ch"
  shows "\<exists>ch1. Add c ch = Inr ch1 \<and> maxSize ch1 = maxSize ch
           \<and> int (length (commands ch1)) \<le> maxSize ch1"
proof (cases "int (length (commands ch)) \<ge> maxSize ch")
  case True
  with assms have "commands ch \<noteq> []" by auto
  with True assms show ?thesis by (simp add: Add_def slice_from_1_def)
next
  case False
  with assms show ?thesis by (simp add: Add_def)
qed

lemma AddTrace_bounded:
  assumes "1 \<le> maxSize ch" "int (length (commands ch)) \<le> maxSize ch"
  shows "\<exists>tr. AddTrace cs ch = Inr tr \<and> length tr = length cs
           \<and> (\<forall>h\<in>set tr. maxSize h = maxSize ch \<and> int (length (commands h)) \<le> maxSize h)"
  using assms
proof (induction cs arbitrary: ch)
  case Nil
  then show ?case by simp
next
  case (Cons c cs)
  from Add_keeps_bound [OF Cons.prems, of c] obtain ch1 where
    add: "Add c ch = Inr ch1" and m: "maxSize ch1 = maxSize ch"
    and l: "int (length (commands ch1)) \<le> maxSize ch1"
    by (elim exE conjE)
  have m1: "1 \<le> maxSize ch1" using Cons.prems(1) m by simp
  from Cons.IH [OF m1 l] obtain tr where
    tr: "AddTrace cs ch1 = Inr tr" and trl: "length tr = length cs"
    and trb: "\<forall>h\<in>set tr. maxSize h = maxSize ch1 \<and> int (length (commands h)) \<le> maxSize h"
    by (elim exE conjE)
  have 1: "AddTrace (c # cs) ch = Inr (ch1 # tr)" using add tr by simp
  have 2: "length (ch1 # tr) = length (c # cs)" using trl by simp
  have 3: "\<forall>h\<in>set (ch1 # tr). maxSize h = maxSize ch \<and> int (length (commands h)) \<le> maxSize h"
  proof
    fix h assume "h \<in> set (ch1 # tr)"
    then have "h = ch1 \<or> h \<in> set tr" by simp
    then show "maxSize h = maxSize ch \<and> int (length (commands h)) \<le> maxSize h"
    proof
      assume "h = ch1" with l m show ?thesis by simp
    next
      assume "h \<in> set tr"
      with trb have "maxSize h = maxSize ch1 \<and> int (length (commands h)) \<le> maxSize h"
        by (rule bspec)
      with m show ?thesis by simp
    qed
  qed
  show ?case
    by (rule exI [of _ "ch1 # tr"]) (intro conjI 1 2 3)
qed

text \<open>
  Claim C5. For a history of capacity \<open>maxSize \<ge> 1\<close> (the capacities at which \<open>Add\<close>
  does not panic) that holds at most \<open>maxSize\<close> entries, and every \<open>k > 0\<close>: after
  \<open>maxSize + k\<close> calls of \<open>Add\<close>, \<open>GetHistory\<close> returns exactly the last \<open>maxSize\<close>
  added entries in insertion order; after every one of the calls the stored length is
  at most \<open>maxSize\<close>; and an \<open>Add\<close> at capacity drops the oldest entry only.
\<close>

theorem CommandHistory_keeps_last_maxSize:
  assumes "1 \<le> maxSize ch" "int (length (commands ch)) \<le> maxSize ch"
    and "0 < k" "int (length cs) = maxSize ch + int k"
  shows "\<exists>h tr. AddAll cs ch = Inr h \<and> GetHistory h = drop k cs
           \<and> int (length (GetHistory h)) = maxSize ch
           \<and> AddTrace cs ch = Inr tr \<and> length tr = length cs
           \<and> (\<forall>h'\<in>set tr. int (length (GetHistory h')) \<le> maxSize ch)
           \<and> (\<forall>c h'. 1 \<le> maxSize h' \<and> int (length (commands h')) = maxSize h' \<longrightarrow>
                 Add c h' = Inr (h'\<lparr>commands := tl (commands h') @ [c]\<rparr>))"
proof -
  let ?n = "nat (maxSize ch)"
  let ?h = "ch\<lparr>commands := last_n ?n (commands ch @ cs)\<rparr>"
  have all: "AddAll cs ch = Inr ?h" using assms(1,2) by (rule AddAll_last_n)
  have len: "length cs = ?n + k" using assms(1,4) by linarith
  have "last_n ?n (commands ch @ cs) = drop k cs"
    using len by (simp add: last_n_def)
  then have get: "GetHistory ?h = drop k cs" by (simp add: GetHistory_def)
  have glen: "int (length (GetHistory ?h)) = maxSize ch"
    using get len assms(1) by simp
  from AddTrace_bounded [OF assms(1,2), of cs] obtain tr where
    tr: "AddTrace cs ch = Inr tr" "length tr = length cs"
        "\<forall>h\<in>set tr. maxSize h = maxSize ch \<and> int (length (commands h)) \<le> maxSize h"
    by blast
  have bound: "\<forall>h'\<in>set tr. int (length (GetHistory h')) \<le> maxSize ch"
  proof
    fix h' assume "h' \<in> set tr"
    with tr(3) have "maxSize h' = maxSize ch \<and> int (length (commands h')) \<le> maxSize h'"
      by (rule bspec)
    then show "int (length (GetHistory h')) \<le> maxSize ch" by (simp add: GetHistory_def)
  qed
  have evict: "\<forall>c h'. 1 \<le> maxSize h' \<and> int (length (commands h')) = maxSize h' \<longrightarrow>
                 Add c h' = Inr (h'\<lparr>commands := tl (commands h') @ [c]\<rparr>)"
    by (auto simp: Add_ok drop_Suc)
  show ?thesis
    by (rule exI [of _ ?h], rule exI [of _ tr]) (intro conjI all get glen tr(1,2) bound evict)
qed

theorem CommandHistory_keeps_last_maxSize_witness:
  "AddAll [''a'', ''b'', ''c''] \<lparr>commands = [], maxSize = 2\<rparr>
     = Inr \<lparr>commands = [''b'', ''c''], maxSize = 2\<rparr>
   \<and> GetHistory \<lparr>commands = [''b'', ''c''], maxSize = 2\<rparr> = drop 1 [''a'', ''b'', ''c'']
   \<and> Add ''d'' \<lparr>commands = [''b'', ''c''], maxSize = 2\<rparr>
     = Inr \<lparr>commands = [''c'', ''d''], maxSize = 2\<rparr>"
proof -
  let ?ch = "\<lparr>commands = [], maxSize = 2\<rparr>"
  let ?cs = "[''a'', ''b'', ''c'']"
  have h1: "1 \<le> maxSize ?ch" by simp
  have h2: "int (length (commands ?ch)) \<le> maxSize ?ch" by simp
  have h3: "0 < (1::nat)" by simp
  have h4: "int (length ?cs) = maxSize ?ch + int 1" by simp
  from CommandHistory_keeps_last_maxSize [OF h1 h2 h3 h4] obtain h tr where
    r: "AddAll ?cs ?ch = Inr h" "GetHistory h = drop 1 ?cs"
       "\<forall>c h'. 1 \<le> maxSize h' \<and> int (length (commands h')) = maxSize h' \<longrightarrow>
                 Add c h' = Inr (h'\<lparr>commands := tl (commands h') @ [c]\<rparr>)"
    by (elim exE conjE)
  have e: "AddAll ?cs ?ch = Inr \<lparr>commands = [''b'', ''c''], maxSize = 2\<rparr>"
    by (simp add: Add_def slice_from_1_def)
  with r(1) have h: "h = \<lparr>commands = [''b'', ''c''], maxSize = 2\<rparr>" by simp
  have "Add ''d'' \<lparr>commands = [''b'', ''c''], maxSize = 2\<rparr>
          = Inr (\<lparr>commands = [''b'', ''c''], maxSize = 2\<rparr>
                   \<lparr>commands := tl (commands \<lparr>commands = [''b'', ''c''], maxSize = 2\<rparr>) @ [''d'']\<rparr>)"
    using r(3) by simp
  then show ?thesis using e r(2) h by simp
qed

text \<open>
  Claim C10. On a history constructed with \<open>maxSize = 0\<close> the first call of \<open>Add\<close>
  panics: the slice expression \<open>commands[1:]\<close> is out of range for the empty slice. With
  \<open>maxSize \<ge> 1\<close> a call of \<open>Add\<close> never panics; with \<open>maxSize \<le> 0\<close> it panics on
  every empty history.
\<close>

theorem Add_panics_iff_capacity_zero:
  "NewCommandHistory 0 = Inr \<lparr>commands = [], maxSize = 0\<rparr>
   \<and> Add c \<lparr>commands = [], maxSize = 0\<rparr> = Inl SliceBoundsOutOfRange
   \<and> (1 \<le> maxSize ch \<longrightarrow> (\<exists>ch'. Add c ch = Inr ch'))
   \<and> (maxSize ch \<le> 0 \<and> commands ch = [] \<longrightarrow> Add c ch = Inl SliceBoundsOutOfRange)"
  by (auto simp: NewCommandHistory_def Add_def slice_from_1_def)

theorem Add_panics_iff_capacity_zero_witness:
  "NewCommandHistory 0 = Inr \<lparr>commands = [], maxSize = 0\<rparr>
   \<and> Add ''a'' \<lparr>commands = [], maxSize = 0\<rparr> = Inl SliceBoundsOutOfRange
   \<and> (\<exists>ch'. Add ''a'' \<lparr>commands = [''x''], maxSize = 1\<rparr> = Inr ch')"
  using Add_panics_iff_capacity_zero [of "''a''" "\<lparr>commands = [''x''], maxSize = 1\<rparr>"]
  by simp


section \<open>Properties of ClientHub\<close>

lemma broadcast_loop_clients:
  "clients (broadcast_loop env msg cs h) = clients h"
  by (induction cs arbitrary: h) (simp_all add: WriteMessage_def Let_def split: option.splits)

lemma broadcast_loop_write_calls:
  "write_calls (broadcast_loop env msg cs h)
     = write_calls h @ map (\<lambda>c. (c, Payload msg)) (filter (\<lambda>c. c \<noteq> Sender msg) cs)"
  by (induction cs arbitrary: h) (simp_all add: WriteMessage_def Let_def split: option.splits)

lemma broadcast_loop_hub_log:
  "hub_log (broadcast_loop env msg cs h)
     = hub_log h @ map (error_line env)
         (filter (\<lambda>c. c \<noteq> Sender msg \<and> peer_write_error env c \<noteq> None) cs)"
  by (induction cs arbitrary: h)
     (auto simp: WriteMessage_def Let_def error_line_def split: option.splits)

lemma broadcast_loop_delivered:
  "delivered (broadcast_loop env msg cs h) c
     = delivered h c
         @ (if c \<noteq> Sender msg \<and> peer_write_error env c = None
            then replicate (count_list cs c) (Payload msg) else [])"
proof (induction cs arbitrary: h)
  case Nil
  then show ?case by simp
next
  case (Cons x cs)
  show ?case
  proof (cases "x = Sender msg")
    case True
    then show ?thesis using Cons.IH [of h] by simp
  next
    case False
    show ?thesis
    proof (cases "peer_write_error env x")
      case None
      let ?h1 = "h\<lparr>write_calls := write_calls h @ [(x, Payload msg)],
                   delivered := (delivered h)(x := delivered h x @ [Payload msg])\<rparr>"
      have "broadcast_loop env msg (x # cs) h = broadcast_loop env msg cs ?h1"
        using False None by (simp add: WriteMessage_def Let_def)
      then show ?thesis using Cons.IH [of ?h1] None False
        by (simp add: replicate_append_same [symmetric] del: replicate_append_same)
    next
      case (Some e)
      let ?h1 = "h\<lparr>write_calls := write_calls h @ [(x, Payload msg)],
                   hub_log := hub_log h @ [''error broadcasting to client: '' @ e]\<rparr>"
      have "broadcast_loop env msg (x # cs) h = broadcast_loop env msg cs ?h1"
        using False Some by (simp add: WriteMessage_def Let_def)
      then show ?thesis using Cons.IH [of ?h1] Some False by auto
    qed
  qed
qed

lemma count_list_distinct:
  "distinct cs \<Longrightarrow> count_list cs c = (if c \<in> set cs then 1 else 0)"
  by (induction cs) auto

text \<open>
  Claim C8. A broadcast over the membership \<open>M\<close> (the keys of \<open>clients\<close>, visited in
  any order) from the sender \<open>c\<close> calls \<open>WriteMessage\<close> once for every member other
  than \<open>c\<close>, whatever the earlier writes returned, and never for \<open>c\<close>; a member whose
  write succeeds receives the payload, one whose write fails receives nothing and gets
  one line in the log; the sender receives nothing and the membership is unchanged.
\<close>

theorem broadcast_reaches_every_other_member:
  assumes "distinct (range_order env (clients h))"
    and "set (range_order env (clients h)) = dom (clients h)"
  shows "write_calls (Run_step env (broadcast msg) h)
           = write_calls h @ map (\<lambda>c. (c, Payload msg))
               (filter (\<lambda>c. c \<noteq> Sender msg) (range_order env (clients h)))
       \<and> set (filter (\<lambda>c. c \<noteq> Sender msg) (range_order env (clients h)))
           = dom (clients h) - {Sender msg}
       \<and> distinct (filter (\<lambda>c. c \<noteq> Sender msg) (range_order env (clients h)))
       \<and> (\<forall>c\<in>dom (clients h) - {Sender msg}.
             delivered (Run_step env (broadcast msg) h) c
               = delivered h c @ (if peer_write_error env c = None then [Payload msg] else []))
       \<and> delivered (Run_step env (broadcast msg) h) (Sender msg) = delivered h (Sender msg)
       \<and> hub_log (Run_step env (broadcast msg) h)
           = hub_log h @ map (error_line env)
               (filter (\<lambda>c. c \<noteq> Sender msg \<and> peer_write_error env c \<noteq> None)
                  (range_order env (clients h)))
       \<and> clients (Run_step env (broadcast msg) h) = clients h"
proof -
  let ?cs = "range_order env (clients h)"
  have run: "Run_step env (broadcast msg) h = broadcast_loop env msg ?cs h"
    by (simp add: Run_step_def)
  have 1: "write_calls (Run_step env (broadcast msg) h)
           = write_calls h @ map (\<lambda>c. (c, Payload msg)) (filter (\<lambda>c. c \<noteq> Sender msg) ?cs)"
    by (simp only: run broadcast_loop_write_calls)
  have 2: "set (filter (\<lambda>c. c \<noteq> Sender msg) ?cs) = dom (clients h) - {Sender msg}"
    using assms(2) by auto
  have 3: "distinct (filter (\<lambda>c. c \<noteq> Sender msg) ?cs)"
    using assms(1) by simp
  have 4: "\<forall>c\<in>dom (clients h) - {Sender msg}.
             delivered (Run_step env (broadcast msg) h) c
               = delivered h c @ (if peer_write_error env c = None then [Payload msg] else [])"
  proof
    fix c assume c: "c \<in> dom (clients h) - {Sender msg}"
    then have "c \<in> set ?cs" "c \<noteq> Sender msg" using assms(2) by auto
    then have "count_list ?cs c = 1" "c \<noteq> Sender msg"
      using count_list_distinct [OF assms(1), of c] by simp_all
    then show "delivered (Run_step env (broadcast msg) h) c
               = delivered h c @ (if peer_write_error env c = None then [Payload msg] else [])"
      by (simp add: run broadcast_loop_delivered)
  qed
  have 5: "delivered (Run_step env (broadcast msg) h) (Sender msg) = delivered h (Sender msg)"
    by (simp add: run broadcast_loop_delivered)
  have 6: "hub_log (Run_step env (broadcast msg) h)
           = hub_log h @ map (error_line env)
               (filter (\<lambda>c. c \<noteq> Sender msg \<and> peer_write_error env c \<noteq> None) ?cs)"
    by (simp only: run broadcast_loop_hub_log)
  have 7: "clients (Run_step env (broadcast msg) h) = clients h"
    by (simp only: run broadcast_loop_clients)
  show ?thesis by (intro conjI 1 2 3 4 5 6 7)
qed

theorem broadcast_reaches_every_other_member_witness:
  "write_calls (Run_step sample_hub_env (broadcast \<lparr>Payload = ''hi'', Sender = 3\<rparr>) sample_hub)
     = [(1, ''hi''), (2, ''hi'')]
   \<and> delivered (Run_step sample_hub_env (broadcast \<lparr>Payload = ''hi'', Sender = 3\<rparr>) sample_hub) 2
     = [''hi'']
   \<and> delivered (Run_step sample_hub_env (broadcast \<lparr>Payload = ''hi'', Sender = 3\<rparr>) sample_hub) 1
     = []
   \<and> delivered (Run_step sample_hub_env (broadcast \<lparr>Payload = ''hi'', Sender = 3\<rparr>) sample_hub) 3
     = []
   \<and> hub_log (Run_step sample_hub_env (broadcast \<lparr>Payload = ''hi'', Sender = 3\<rparr>) sample_hub)
     = [''error broadcasting to client: broken pipe'']"
proof -
  let ?msg = "\<lparr>Payload = ''hi'', Sender = 3\<rparr>"
  have dm: "dom (clients sample_hub) = {1, 2, 3}" by (auto simp: sample_hub_def)
  have ro: "range_order sample_hub_env (clients sample_hub) = [3, 1, 2]"
    by (simp add: sample_hub_env_def dm)
  have h1: "distinct (range_order sample_hub_env (clients sample_hub))" by (simp add: ro)
  have h2: "set (range_order sample_hub_env (clients sample_hub)) = dom (clients sample_hub)"
    by (auto simp: ro dm)
  have sh: "write_calls sample_hub = []" "hub_log sample_hub = []" "delivered sample_hub c = []" for c
    by (simp_all add: sample_hub_def)
  have pe: "peer_write_error sample_hub_env c = (if c = 1 then Some ''broken pipe'' else None)" for c
    by (simp add: sample_hub_env_def)
  note r = broadcast_reaches_every_other_member [OF h1 h2, of ?msg]
  have w: "write_calls (Run_step sample_hub_env (broadcast ?msg) sample_hub)
             = [(1, ''hi''), (2, ''hi'')]"
    using r [THEN conjunct1] by (simp add: ro sh)
  have d: "\<forall>c\<in>dom (clients sample_hub) - {Sender ?msg}.
             delivered (Run_step sample_hub_env (broadcast ?msg) sample_hub) c
               = delivered sample_hub c
                   @ (if peer_write_error sample_hub_env c = None then [Payload ?msg] else [])"
    using r by (elim conjE)
  have d2: "delivered (Run_step sample_hub_env (broadcast ?msg) sample_hub) 2 = [''hi'']"
    using d [THEN bspec, of 2] by (simp add: dm pe sh)
  have d1: "delivered (Run_step sample_hub_env (broadcast ?msg) sample_hub) 1 = []"
    using d [THEN bspec, of 1] by (simp add: dm pe sh)
  have d3: "delivered (Run_step sample_hub_env (broadcast ?msg) sample_hub) 3 = []"
    using r by (simp add: sh)
  have l: "hub_log (Run_step sample_hub_env (broadcast ?msg) sample_hub)
             = [''error broadcasting to client: broken pipe'']"
    using r by (simp add: ro sh pe error_line_def)
  show ?thesis by (intro conjI w d2 d1 d3 l)
qed


section \<open>Properties of the handler\<close>

lemma bytes_roundtrip:
  assumes "\<forall>b\<in>set bs. b < (256::nat)"
  shows "map of_char (map char_of bs :: string) = bs"
  using assms by (induction bs) simp_all

lemma runes_of_string_of_runes:
  assumes "\<forall>r\<in>set cps. scalar_value r"
  shows "runes_of_string (string_of_runes cps) = cps"
proof -
  have "\<forall>b\<in>set (concat (map EncodeRune cps)). b < 256"
    using EncodeRune_bytes by auto
  then have "map of_char (string_of_runes cps) = concat (map EncodeRune cps)"
    unfolding string_of_runes_def by (rule bytes_roundtrip)
  then show ?thesis
    using assms by (simp add: runes_of_string_def decode_runes_encode)
qed

lemma responseBody_REVERSE:
  "responseBody env (''REVERSE:'' @ s)
     = string_of_runes (reverse_runes (runes_of_string s))"
  by (simp add: responseBody_def HasPrefix_def TrimPrefix_def)

text \<open>
  Claim C7. For every text made of well-formed Unicode scalar values only (the UTF-8
  encoding of a sequence of scalar values), the response body to \<open>REVERSE:\<close> followed by
  the text is the encoding of the reversed sequence, and sending that body back behind
  \<open>REVERSE:\<close> returns the original text.
\<close>

theorem REVERSE_reverses_code_points:
  assumes "\<forall>r\<in>set cps. scalar_value r"
  shows "responseBody env (''REVERSE:'' @ string_of_runes cps) = string_of_runes (rev cps)
       \<and> responseBody env (''REVERSE:'' @ responseBody env (''REVERSE:'' @ string_of_runes cps))
           = string_of_runes cps"
proof -
  have 1: "responseBody env (''REVERSE:'' @ string_of_runes cps) = string_of_runes (rev cps)"
    using runes_of_string_of_runes [OF assms]
    by (simp only: responseBody_REVERSE reverse_runes_rev)
  have "\<forall>r\<in>set (rev cps). scalar_value r" using assms by simp
  then have "runes_of_string (string_of_runes (rev cps)) = rev cps"
    by (rule runes_of_string_of_runes)
  then have "responseBody env (''REVERSE:'' @ string_of_runes (rev cps)) = string_of_runes cps"
    by (simp only: responseBody_REVERSE reverse_runes_rev rev_rev_ident)
  with 1 show ?thesis by simp
qed


theorem REVERSE_reverses_code_points_witness:
  "responseBody sample_env (''REVERSE:'' @ string_of_runes [104, 233, 8364, 128512])
     = string_of_runes (rev [104, 233, 8364, 128512])
   \<and> responseBody sample_env (''REVERSE:''
        @ responseBody sample_env (''REVERSE:'' @ string_of_runes [104, 233, 8364, 128512]))
     = string_of_runes [104, 233, 8364, 128512]"
  by (rule REVERSE_reverses_code_points) (simp add: scalar_value_def)

lemma write_frame_fields:
  "messageCounter (snd (write_frame env frame st)) = messageCounter st"
  "write_attempts (snd (write_frame env frame st)) = write_attempts st + 1"
  "sent (snd (write_frame env frame st))
     = sent st @ (if conn_write_error env (write_attempts st) = None then [frame] else [])"
  "fst (write_frame env frame st) = conn_write_error env (write_attempts st)"
  by (simp_all add: write_frame_def Let_def split: option.splits)

text \<open>
  Claim C9. A frame whose message type is not the text type leaves the connection state
  as it was: no frame is written and the message counter keeps its value, and the loop
  goes on to the next read. A text frame advances the counter by one and makes one
  write, of the reply \<open>#id body\<close>, which is sent when the write succeeds.
\<close>

theorem non_text_frame_is_ignored:
  "(msgType \<noteq> TextMessage \<longrightarrow>
      handle_message env msgType payload st = (st, True)
      \<and> read_loop env (ReadMessage msgType payload # rest) st = read_loop env rest st)
   \<and> messageCounter (fst (handle_message env TextMessage payload st)) = messageCounter st + 1
   \<and> write_attempts (fst (handle_message env TextMessage payload st)) = write_attempts st + 1
   \<and> sent (fst (handle_message env TextMessage payload st))
       = sent st @ (if conn_write_error env (write_attempts st) = None
                    then [TextFrame (''#'' @ FormatUint (unat (messageCounter st + 1)) @ '' ''
                                       @ responseBody env payload)]
                    else [])"
proof -
  have 1: "msgType \<noteq> TextMessage \<longrightarrow>
      handle_message env msgType payload st = (st, True)
      \<and> read_loop env (ReadMessage msgType payload # rest) st = read_loop env rest st"
    by (simp add: handle_message_def)
  let ?st1 = "st\<lparr>messageCounter := messageCounter st + 1\<rparr>"
  let ?f = "TextFrame (''#'' @ FormatUint (unat (messageCounter st + 1)) @ '' ''
                         @ responseBody env payload)"
  have h: "fst (handle_message env TextMessage payload st) = snd (write_frame env ?f ?st1)"
    by (simp add: handle_message_def Let_def split_beta)
  have 2: "messageCounter (fst (handle_message env TextMessage payload st)) = messageCounter st + 1"
    by (simp add: h write_frame_fields)
  have 3: "write_attempts (fst (handle_message env TextMessage payload st)) = write_attempts st + 1"
    by (simp add: h write_frame_fields)
  have 4: "sent (fst (handle_message env TextMessage payload st))
       = sent st @ (if conn_write_error env (write_attempts st) = None then [?f] else [])"
    by (simp add: h write_frame_fields)
  show ?thesis by (intro conjI 1 2 3 4)
qed

theorem non_text_frame_is_ignored_witness:
  "handle_message sample_env BinaryMessage ''abc''
     \<lparr>messageCounter = 7, sent = [], write_attempts = 0\<rparr>
     = (\<lparr>messageCounter = 7, sent = [], write_attempts = 0\<rparr>, True)
   \<and> read_loop sample_env [ReadMessage BinaryMessage ''abc'']
       \<lparr>messageCounter = 7, sent = [], write_attempts = 0\<rparr>
     = \<lparr>messageCounter = 7, sent = [], write_attempts = 0\<rparr>"
proof -
  have ne: "BinaryMessage \<noteq> TextMessage" by (simp add: BinaryMessage_def TextMessage_def)
  from non_text_frame_is_ignored
         [of BinaryMessage sample_env "''abc''"
             "\<lparr>messageCounter = 7, sent = [], write_attempts = 0\<rparr>" "[]"] ne
  show ?thesis by simp
qed

text \<open>
  Claim C1 at the messages \<open>HISTORY\<close> and \<open>BROADCAST:hi\<close>: the handler has no branch
  for either, so both reach the final branch and are echoed; the reply to \<open>HISTORY\<close> on
  a fresh connection is \<open>#1 HISTORY\<close>.
\<close>

theorem HISTORY_and_BROADCAST_are_echoed:
  "responseBody env ''HISTORY'' = ''HISTORY''
   \<and> responseBody env ''BROADCAST:hi'' = ''BROADCAST:hi''
   \<and> handle_message sample_env TextMessage ''HISTORY''
        \<lparr>messageCounter = 0, sent = [], write_attempts = 0\<rparr>
       = (\<lparr>messageCounter = 1, sent = [TextFrame ''#1 HISTORY''], write_attempts = 1\<rparr>, True)"
proof -
  have 1: "responseBody env ''HISTORY'' = ''HISTORY''" for env
    by (simp add: responseBody_def HasPrefix_def)
  have 2: "responseBody env ''BROADCAST:hi'' = ''BROADCAST:hi''"
    by (simp add: responseBody_def HasPrefix_def)
  have 3: "handle_message sample_env TextMessage ''HISTORY''
        \<lparr>messageCounter = 0, sent = [], write_attempts = 0\<rparr>
       = (\<lparr>messageCounter = 1, sent = [TextFrame ''#1 HISTORY''], write_attempts = 1\<rparr>, True)"
    by (simp add: handle_message_def Let_def write_frame_def sample_env_def 1 FormatUint.simps)
  show ?thesis by (intro conjI 1 2 3)
qed


section \<open>Properties of the command processor\<close>

lemma command_response_divide_zero:
  assumes "float_is_zero b"
  shows "command_response env \<lparr>CommandRequest.Command = ''divide'', A = x, B = b\<rparr>
           = \<lparr>Result = Finite 0, Command = ''divide'', Error = ''division by zero''\<rparr>"
  using assms by (simp add: command_response_def)

text \<open>
  Claim C6. For every operand \<open>x\<close>, the request \<open>divide\<close> of \<open>x\<close> by zero gets the
  response whose error is \<open>division by zero\<close> and whose result is left at its zero
  value; its serialization has the fields \<open>command\<close> and \<open>error\<close> and no field
  \<open>result\<close>; and \<open>processCommand\<close> returns that serialization, not an error.
\<close>

theorem divide_by_zero_yields_error_field:
  assumes "float_is_zero b"
  shows "command_response env \<lparr>CommandRequest.Command = ''divide'', A = x, B = b\<rparr>
           = \<lparr>Result = Finite 0, Command = ''divide'', Error = ''division by zero''\<rparr>
       \<and> Marshal_fields
           (command_response env \<lparr>CommandRequest.Command = ''divide'', A = x, B = b\<rparr>)
           = Inr [(''command'', JString ''divide''), (''error'', JString ''division by zero'')]
       \<and> (Unmarshal env payload = Inr \<lparr>CommandRequest.Command = ''divide'', A = x, B = b\<rparr> \<longrightarrow>
            processCommand env payload
              = Inr (encode_object env
                       [(''command'', JString ''divide''),
                        (''error'', JString ''division by zero'')]))"
proof -
  note r = command_response_divide_zero [OF assms, of env x]
  have m: "Marshal_fields \<lparr>Result = Finite 0, Command = ''divide'', Error = ''division by zero''\<rparr>
             = Inr [(''command'', JString ''divide''), (''error'', JString ''division by zero'')]"
    by (simp add: Marshal_fields_def float_is_zero_def)
  have p: "Unmarshal env payload = Inr \<lparr>CommandRequest.Command = ''divide'', A = x, B = b\<rparr> \<longrightarrow>
            processCommand env payload
              = Inr (encode_object env
                       [(''command'', JString ''divide''),
                        (''error'', JString ''division by zero'')])"
    by (simp add: processCommand_def Marshal_def r m)
  show ?thesis using r m p by (simp only:)
qed

theorem divide_by_zero_yields_error_field_witness:
  \<open>command_response sample_env \<lparr>CommandRequest.Command = ''divide'', A = Finite 1, B = Finite 0\<rparr>
     = \<lparr>Result = Finite 0, Command = ''divide'', Error = ''division by zero''\<rparr>
   \<and> processCommand sample_env sample_request
     = Inr ''{"command":"divide","error":"division by zero"}''\<close>
proof -
  have z: "float_is_zero (Finite 0)" by (simp add: float_is_zero_def)
  have u: "Unmarshal sample_env sample_request
             = Inr \<lparr>CommandRequest.Command = ''divide'', A = Finite 1, B = Finite 0\<rparr>"
    by (simp add: sample_env_def)
  have e: \<open>encode_object sample_env
             [(''command'', JString ''divide''), (''error'', JString ''division by zero'')]
           = ''{"command":"divide","error":"division by zero"}''\<close>
    by (simp add: encode_object_def sample_env_def dquote_def)
  from divide_by_zero_yields_error_field [OF z, of sample_env "Finite 1" sample_request] u e
  show ?thesis by simp
qed

text \<open>
  Claim C2 at the request \<open>add\<close> of 0 and 0. The sum of zero and zero is zero; the
  response then has the result 0 and no error, and its serialization has the field
  \<open>command\<close> only: the field \<open>result\<close> is tagged \<open>omitempty\<close> and a zero is left out.
\<close>

theorem zero_result_is_omitted:
  assumes "fadd env (Finite 0) (Finite 0) = Finite 0"
  shows "command_response env \<lparr>CommandRequest.Command = ''add'', A = Finite 0, B = Finite 0\<rparr>
           = \<lparr>Result = Finite 0, Command = ''add'', Error = ''''\<rparr>
       \<and> Marshal_fields
           (command_response env \<lparr>CommandRequest.Command = ''add'', A = Finite 0, B = Finite 0\<rparr>)
           = Inr [(''command'', JString ''add'')]"
  using assms by (simp add: command_response_def Marshal_fields_def float_is_zero_def)

theorem zero_result_is_omitted_witness:
  "fadd sample_env (Finite 0) (Finite 0) = Finite 0
   \<and> Marshal_fields
       (command_response sample_env
          \<lparr>CommandRequest.Command = ''add'', A = Finite 0, B = Finite 0\<rparr>)
     = Inr [(''command'', JString ''add'')]"
proof -
  have a: "fadd sample_env (Finite 0) (Finite 0) = Finite 0"
    by (simp add: sample_env_def exact_op_def)
  note r = zero_result_is_omitted [OF a]
  show ?thesis by (intro conjI a r [THEN conjunct2])
qed

text \<open>
  The part of claim C2 that holds on every request: a serialized response never has
  both fields, and one with the field \<open>error\<close> has the result at its zero value.
\<close>

lemma response_never_has_both_fields:
  assumes "Marshal_fields (command_response env req) = Inr kvs"
  shows "\<not> (''result'' \<in> fst ` set kvs \<and> ''error'' \<in> fst ` set kvs)"
proof -
  let ?r = "command_response env req"
  have "Error ?r = '''' \<or> Result ?r = Finite 0"
    by (auto simp: command_response_def Let_def split: if_splits)
  then show ?thesis
  proof
    assume "Error ?r = ''''"
    with assms show ?thesis by (auto simp: Marshal_fields_def Let_def split: if_splits)
  next
    assume "Result ?r = Finite 0"
    with assms show ?thesis
      by (auto simp: Marshal_fields_def Let_def float_is_zero_def split: if_splits)
  qed
qed

end
